theory Spec2Isabelle
  imports Complex_Main "HOL-Library.Multiset"
begin

section \<open>The users table\<close>

text \<open>
  The table is declared in \<^verbatim>\<open>src/db/schema.ts\<close>, quoted in the repository's readme:
  \<^verbatim>\<open>
  export const users = pgTable("users", {
    id: serial("id").primaryKey(),
    name: text("name").notNull(),
    email: text("email").notNull().unique(),
    createdAt: timestamp("created_at").defaultNow().notNull(),
  });
  \<close>
  A row is a record with the four columns. A timestamp is a count of clock ticks.
\<close>

type_synonym timestamp = int

record user =
  user_id :: int
  user_name :: string
  user_email :: string
  user_createdAt :: timestamp

text \<open>
  The state of the store: the rows of the table in the order of their insertion, and the
  next value of the sequence behind the \<^verbatim>\<open>serial\<close> column. The store is taken to
  be reachable.
\<close>

record store =
  rows :: "user list"
  next_id :: int

text \<open>
  A \<^verbatim>\<open>serial\<close> column is a 32-bit signed integer fed by a sequence that ends at the
  largest such integer.
\<close>

definition int4_max :: int where
  "int4_max = 2147483647"

definition in_int4 :: "int \<Rightarrow> bool" where
  "in_int4 i \<longleftrightarrow> - 2147483648 \<le> i \<and> i \<le> int4_max"

section \<open>Values at the input boundary\<close>

text \<open>
  A field of a request payload is an arbitrary JSON value before validation. Numbers are
  rationals: a number with a fractional part is a legal payload, and JSON carries neither
  NaN nor an infinity. \<open>JUndefined\<close> stands for a field that is absent.
\<close>

datatype jsval = JUndefined | JNull | JBool bool | JNum rat | JStr string

record create_input =
  input_name :: jsval
  input_email :: jsval

record delete_input =
  input_id :: jsval

text \<open>
  A validation issue names the field and carries the message the schema gives for the
  failed check; a value of the wrong type has no message in the source (the library's
  default text applies), which is \<open>None\<close>.
\<close>

record issue =
  path :: string
  message :: "string option"

text \<open>
  The router shapes no error of the store: what a statement raises reaches the caller as
  an internal server error that carries the store's own error. Two kinds of it matter
  here: the violation of the unique index on \<open>email\<close> (SQLSTATE 23505, the
  \<open>ConstraintViolation\<close> of the specification), and a data exception (SQLSTATE class
  22): a text with a NUL character, a number that is no 32-bit integer where one is
  needed, or a sequence that has run out.
\<close>

datatype pg_error = UniqueViolation | DataException

datatype error = ValidationError "issue list" | InternalServerError pg_error

record delete_result =
  success :: bool

section \<open>Input schemas\<close>

text \<open>\<^verbatim>\<open>name: z.string().min(1, "Name is required")\<close>\<close>

definition name_schema :: "jsval \<Rightarrow> issue list + string" where
  "name_schema v =
     (case v of
        JStr s \<Rightarrow>
          if length s < 1 then Inl [\<lparr>path = ''name'', message = Some ''Name is required''\<rparr>]
          else Inr s
      | _ \<Rightarrow> Inl [\<lparr>path = ''name'', message = None\<rparr>])"

text \<open>
  \<^verbatim>\<open>email: z.string().email("Invalid email address")\<close>.
  The pattern behind \<^verbatim>\<open>.email()\<close> belongs to the validation library, not to the
  repository; it is the parameter \<open>is_email\<close>.
\<close>

definition email_schema :: "(string \<Rightarrow> bool) \<Rightarrow> jsval \<Rightarrow> issue list + string" where
  "email_schema is_email v =
     (case v of
        JStr s \<Rightarrow>
          if is_email s then Inr s
          else Inl [\<lparr>path = ''email'', message = Some ''Invalid email address''\<rparr>]
      | _ \<Rightarrow> Inl [\<lparr>path = ''email'', message = None\<rparr>])"

text \<open>
  \<^verbatim>\<open>z.object({ name: ..., email: ... })\<close>: every field is checked and the issues of all
  fields are collected.
\<close>

definition create_schema ::
  "(string \<Rightarrow> bool) \<Rightarrow> create_input \<Rightarrow> issue list + (string \<times> string)" where
  "create_schema is_email inp =
     (case (name_schema (input_name inp), email_schema is_email (input_email inp)) of
        (Inr n, Inr e) \<Rightarrow> Inr (n, e)
      | (Inl a, Inr e) \<Rightarrow> Inl a
      | (Inr n, Inl b) \<Rightarrow> Inl b
      | (Inl a, Inl b) \<Rightarrow> Inl (a @ b))"

text \<open>\<^verbatim>\<open>z.object({ id: z.number() })\<close>\<close>

definition delete_schema :: "delete_input \<Rightarrow> issue list + rat" where
  "delete_schema inp =
     (case input_id inp of
        JNum r \<Rightarrow> Inr r
      | _ \<Rightarrow> Inl [\<lparr>path = ''id'', message = None\<rparr>])"

section \<open>Statements against the store\<close>

text \<open>
  \<^verbatim>\<open>ctx.db.insert(users).values({ name, email }).returning()\<close>.
  The store refuses a text parameter that holds a NUL character before it runs the
  statement. It then draws the identifier from the sequence, which fails once the
  sequence has run out, and takes the timestamp from the clock (\<open>now\<close>); the unique
  index on \<open>email\<close> then admits or refuses the row. An insert refused by the index
  stores nothing, but the sequence value it drew is spent. Further limits of the store
  (the size of a value, for one) are left out: no statement below says of an input in
  general that its insert succeeds.
\<close>

definition insertUser ::
  "timestamp \<Rightarrow> string \<Rightarrow> string \<Rightarrow> store \<Rightarrow> (pg_error + user) \<times> store" where
  "insertUser now n e st =
     (let u = \<lparr>user_id = next_id st, user_name = n, user_email = e, user_createdAt = now\<rparr>
      in if CHR 0x00 \<in> set n \<or> CHR 0x00 \<in> set e then (Inl DataException, st)
         else if int4_max < next_id st then (Inl DataException, st)
         else if e \<in> set (map user_email (rows st))
         then (Inl UniqueViolation, st\<lparr>next_id := next_id st + 1\<rparr>)
         else (Inr u, \<lparr>rows = rows st @ [u], next_id = next_id st + 1\<rparr>))"

text \<open>A number is an integer when it equals its floor.\<close>

definition is_integer :: "rat \<Rightarrow> bool" where
  "is_integer r \<longleftrightarrow> rat_of_int \<lfloor>r\<rfloor> = r"

text \<open>
  \<^verbatim>\<open>ctx.db.delete(users).where(eq(users.id, input.id))\<close>: the submitted number is
  compared with a 32-bit integer column, so the store takes it as such an integer and
  refuses a number with a fractional part or outside the 32-bit range. Otherwise the
  rows whose \<open>id\<close> equals the number go and every other row stays.
\<close>

definition deleteUser :: "rat \<Rightarrow> store \<Rightarrow> pg_error + store" where
  "deleteUser r st =
     (if is_integer r \<and> in_int4 \<lfloor>r\<rfloor>
      then Inr (st\<lparr>rows := filter (\<lambda>u. user_id u \<noteq> \<lfloor>r\<rfloor>) (rows st)\<rparr>)
      else Inl DataException)"

text \<open>
  \<^verbatim>\<open>ctx.db.select().from(users).orderBy(users.createdAt)\<close>: a result of the query
  holds every row once and is ordered by \<open>createdAt\<close>; the order among rows of equal
  \<open>createdAt\<close> is the store's choice, so the query is a relation between the table and
  its results.
\<close>

definition orderBy :: "('a \<Rightarrow> 'k::linorder) \<Rightarrow> 'a list \<Rightarrow> 'a list \<Rightarrow> bool" where
  "orderBy key tbl out \<longleftrightarrow> mset out = mset tbl \<and> sorted (map key out)"

section \<open>The procedures of the user router\<close>

definition getAll :: "store \<Rightarrow> user list \<Rightarrow> bool" where
  "getAll st out \<longleftrightarrow> orderBy user_createdAt (rows st) out"

text \<open>
  The input is validated before the mutation runs; an error the awaited statement raises
  ends the mutation and is passed on.
\<close>

definition create ::
  "(string \<Rightarrow> bool) \<Rightarrow> timestamp \<Rightarrow> create_input \<Rightarrow> store \<Rightarrow> (error + user) \<times> store" where
  "create is_email now inp st =
     (case create_schema is_email inp of
        Inl issues \<Rightarrow> (Inl (ValidationError issues), st)
      | Inr (n, e) \<Rightarrow>
          (case insertUser now n e st of
             (Inl err, st') \<Rightarrow> (Inl (InternalServerError err), st')
           | (Inr newUser, st') \<Rightarrow> (Inr newUser, st')))"

definition delete :: "delete_input \<Rightarrow> store \<Rightarrow> (error + delete_result) \<times> store" where
  "delete inp st =
     (case delete_schema inp of
        Inl issues \<Rightarrow> (Inl (ValidationError issues), st)
      | Inr r \<Rightarrow>
          (case deleteUser r st of
             Inl err \<Rightarrow> (Inl (InternalServerError err), st)
           | Inr st' \<Rightarrow> (Inr \<lparr>success = True\<rparr>, st')))"

section \<open>Sequences of calls\<close>

datatype call = GetAll | Create timestamp create_input | Delete delete_input

fun step :: "(string \<Rightarrow> bool) \<Rightarrow> call \<Rightarrow> store \<Rightarrow> store" where
  "step is_email GetAll st = st"
| "step is_email (Create now inp) st = snd (create is_email now inp st)"
| "step is_email (Delete inp) st = snd (delete inp st)"

fun run :: "(string \<Rightarrow> bool) \<Rightarrow> call list \<Rightarrow> store \<Rightarrow> store" where
  "run is_email [] st = st"
| "run is_email (c # cs) st = run is_email cs (step is_email c st)"

text \<open>
  The users returned by the successful calls of a sequence of \<open>create\<close> calls, in the
  order of the calls, and the store the sequence leaves.
\<close>

fun creates ::
  "(string \<Rightarrow> bool) \<Rightarrow> (timestamp \<times> create_input) list \<Rightarrow> store \<Rightarrow> user list \<times> store" where
  "creates is_email [] st = ([], st)"
| "creates is_email ((now, inp) # cs) st =
     (case create is_email now inp st of
        (Inl err, st') \<Rightarrow> creates is_email cs st'
      | (Inr u, st') \<Rightarrow> (case creates is_email cs st' of (us, st'') \<Rightarrow> (u # us, st'')))"

section \<open>Notions of the specification\<close>

text \<open>
  Modelled from the spec: the pattern of the library's email check is not in the source.
  The spec's words are "local-part@domain, at least one dot in domain": a non-empty
  local part, an \<open>@\<close>, and after it a domain with a dot in it.
\<close>

definition email_syntax :: "string \<Rightarrow> bool" where
  "email_syntax e \<longleftrightarrow>
     (let local_part = takeWhile (\<lambda>c. c \<noteq> CHR ''@'') e;
          rest = dropWhile (\<lambda>c. c \<noteq> CHR ''@'') e
      in local_part \<noteq> [] \<and> rest \<noteq> [] \<and> CHR ''.'' \<in> set (tl rest))"

text \<open>
  The specification's "after trimming": leading and trailing white space is removed.
  The source trims nowhere; the notion serves only to state what the specification says.
\<close>

definition is_space :: "char \<Rightarrow> bool" where
  "is_space c \<longleftrightarrow>
     c = CHR '' '' \<or> c = CHR 0x09 \<or> c = CHR 0x0A \<or> c = CHR 0x0B \<or> c = CHR 0x0C \<or>
     c = CHR 0x0D"

definition trim :: "string \<Rightarrow> string" where
  "trim s = rev (dropWhile is_space (rev (dropWhile is_space s)))"

text \<open>
  The well-formed stores: identifiers are distinct and below the next value of the
  sequence, emails are distinct. Every store reached from the empty table through the
  procedures is well-formed.
\<close>

definition store_ok :: "store \<Rightarrow> bool" where
  "store_ok st \<longleftrightarrow>
     distinct (map user_id (rows st)) \<and> distinct (map user_email (rows st)) \<and>
     list_all (\<lambda>u. user_id u < next_id st) (rows st)"

definition empty_store :: store where
  "empty_store = \<lparr>rows = [], next_id = 1\<rparr>"

text \<open>
  A call is rejected on a field when it fails with a \<open>ValidationError\<close> that holds an
  issue for that field.
\<close>

definition rejected :: "(error + 'a) \<Rightarrow> string \<Rightarrow> bool" where
  "rejected res field \<longleftrightarrow>
     (case res of
        Inl (ValidationError issues) \<Rightarrow> field \<in> set (map path issues)
      | _ \<Rightarrow> False)"

definition emails :: "store \<Rightarrow> string set" where
  "emails st = set (map user_email (rows st))"

text \<open>
  The identifiers of a table fit its column: every stored id is a 32-bit integer, and
  so is the next value of the sequence or the one past the last.
\<close>

definition int4_ids :: "store \<Rightarrow> bool" where
  "int4_ids st \<longleftrightarrow> list_all (\<lambda>u. in_int4 (user_id u)) (rows st) \<and> - 2147483648 \<le> next_id st"

section \<open>The scenarios of the specification\<close>

definition ada_input :: create_input where
  "ada_input = \<lparr>input_name = JStr ''Ada'', input_email = JStr ''ada@x.com''\<rparr>"

definition ada2_input :: create_input where
  "ada2_input = \<lparr>input_name = JStr ''Ada2'', input_email = JStr ''ada@x.com''\<rparr>"

definition bob_input :: create_input where
  "bob_input = \<lparr>input_name = JStr ''Bob'', input_email = JStr ''bob@x.com''\<rparr>"

definition noname_input :: create_input where
  "noname_input = \<lparr>input_name = JStr [], input_email = JStr ''b@x.com''\<rparr>"

definition blank_input :: create_input where
  "blank_input = \<lparr>input_name = JStr '' '', input_email = JStr ''b@x.com''\<rparr>"

definition nodot_input :: create_input where
  "nodot_input = \<lparr>input_name = JStr ''Bob'', input_email = JStr ''bob@x''\<rparr>"

definition ada_user :: user where
  "ada_user =
     \<lparr>user_id = 1, user_name = ''Ada'', user_email = ''ada@x.com'', user_createdAt = 10\<rparr>"

definition bob_user :: user where
  "bob_user =
     \<lparr>user_id = 3, user_name = ''Bob'', user_email = ''bob@x.com'', user_createdAt = 30\<rparr>"

definition blank_user :: user where
  "blank_user =
     \<lparr>user_id = 1, user_name = '' '', user_email = ''b@x.com'', user_createdAt = 10\<rparr>"

definition ada_store :: store where
  "ada_store = \<lparr>rows = [ada_user], next_id = 2\<rparr>"

definition ada_bob_store :: store where
  "ada_bob_store = \<lparr>rows = [ada_user, bob_user], next_id = 4\<rparr>"

definition early_user :: user where
  "early_user =
     \<lparr>user_id = 2, user_name = ''Bob'', user_email = ''bob@x.com'', user_createdAt = 5\<rparr>"

lemmas scenario_defs =
  ada_input_def ada2_input_def bob_input_def noname_input_def blank_input_def nodot_input_def
  ada_user_def bob_user_def blank_user_def ada_store_def empty_store_def ada_bob_store_def
  early_user_def

lemmas procedure_defs =
  create_def create_schema_def name_schema_def email_schema_def email_syntax_def
  insertUser_def delete_def delete_schema_def deleteUser_def Let_def int4_max_def in_int4_def

section \<open>Facts about the schemas and the statements\<close>

lemma create_schema_Inr_iff:
  "create_schema is_email inp = Inr (n, e) \<longleftrightarrow>
     input_name inp = JStr n \<and> n \<noteq> [] \<and> input_email inp = JStr e \<and> is_email e"
  by (auto simp: create_schema_def name_schema_def email_schema_def
      split: jsval.splits sum.splits if_splits)

lemma create_success:
  assumes "create is_email now inp st = (Inr u, st')"
  shows "create_schema is_email inp = Inr (user_name u, user_email u)"
    and "user_email u \<notin> set (map user_email (rows st))"
    and "u = \<lparr>user_id = next_id st, user_name = user_name u, user_email = user_email u,
              user_createdAt = now\<rparr>"
    and "st' = \<lparr>rows = rows st @ [u], next_id = next_id st + 1\<rparr>"
    and "next_id st \<le> int4_max"
  using assms
  by (auto simp: create_def insertUser_def Let_def split: sum.splits prod.splits if_splits)

lemma create_failure:
  assumes "create is_email now inp st = (Inl err, st')"
  shows "rows st' = rows st" and "next_id st \<le> next_id st'"
  using assms
  by (auto simp: create_def insertUser_def Let_def split: sum.splits prod.splits if_splits)

lemma create_stored_email:
  assumes "input_email inp = JStr e" and "e \<in> set (map user_email (rows st))"
  shows "\<exists>err. fst (create is_email now inp st) = Inl err"
    and "rows (snd (create is_email now inp st)) = rows st"
  using assms
  by (auto simp: create_def create_schema_def name_schema_def email_schema_def insertUser_def
      Let_def split: jsval.splits sum.splits prod.splits if_splits)

lemma create_stored_email_unique:
  assumes "input_name inp = JStr n" and "n \<noteq> []" and "CHR 0x00 \<notin> set n"
    and "input_email inp = JStr e" and "is_email e" and "CHR 0x00 \<notin> set e"
    and "e \<in> set (map user_email (rows st))" and "next_id st \<le> int4_max"
  shows "fst (create is_email now inp st) = Inl (InternalServerError UniqueViolation)"
  using assms
  by (auto simp: create_def create_schema_def name_schema_def email_schema_def insertUser_def
      Let_def)

lemma create_success_email:
  assumes "create is_email now inp st = (Inr u, st')"
  shows "input_email inp = JStr (user_email u)" and "is_email (user_email u)"
    and "CHR 0x00 \<notin> set (user_email u)"
  using assms
  by (auto simp: create_def create_schema_def name_schema_def email_schema_def insertUser_def
      Let_def split: jsval.splits sum.splits prod.splits if_splits)

lemma create_rows_length:
  "length (rows (snd (create is_email now inp st))) \<le> length (rows st) + 1"
  by (auto simp: create_def insertUser_def Let_def split: sum.splits prod.splits if_splits)

lemma rejected_create_name:
  "input_name inp = JStr n \<Longrightarrow>
     rejected (fst (create is_email now inp st)) ''name'' \<longleftrightarrow> n = []"
  by (auto simp: rejected_def create_def create_schema_def name_schema_def email_schema_def
      insertUser_def Let_def split: jsval.splits sum.splits if_splits)

lemma rejected_create_email:
  "input_email inp = JStr e \<Longrightarrow>
     rejected (fst (create is_email now inp st)) ''email'' \<longleftrightarrow> \<not> is_email e"
  by (auto simp: rejected_def create_def create_schema_def name_schema_def email_schema_def
      insertUser_def Let_def split: jsval.splits sum.splits if_splits)

lemma delete_int4:
  "in_int4 i \<Longrightarrow>
     delete \<lparr>input_id = JNum (rat_of_int i)\<rparr> st =
       (Inr \<lparr>success = True\<rparr>, st\<lparr>rows := filter (\<lambda>u. user_id u \<noteq> i) (rows st)\<rparr>)"
  by (simp add: delete_def delete_schema_def deleteUser_def is_integer_def)

lemma delete_rows:
  "rows (snd (delete inp st)) = rows st \<or>
   (\<exists>i. rows (snd (delete inp st)) = filter (\<lambda>u. user_id u \<noteq> i) (rows st))"
  by (auto simp: delete_def delete_schema_def deleteUser_def split: jsval.splits)

lemma delete_next_id: "next_id (snd (delete inp st)) = next_id st"
  by (auto simp: delete_def delete_schema_def deleteUser_def split: jsval.splits)

lemma filter_absent:
  "i \<notin> set (map user_id xs) \<Longrightarrow> filter (\<lambda>u. user_id u \<noteq> i) xs = xs"
  by (induction xs) auto

lemma filter_number:
  assumes "is_integer r"
  shows "filter (\<lambda>u. rat_of_int (user_id u) \<noteq> r) xs =
    filter (\<lambda>u. user_id u \<noteq> \<lfloor>r\<rfloor>) xs"
proof -
  have "rat_of_int k = r \<longleftrightarrow> k = \<lfloor>r\<rfloor>" for k
    using assms by (auto simp: is_integer_def)
  then show ?thesis by simp
qed

lemma filter_no_int4:
  assumes "list_all (\<lambda>u. in_int4 (user_id u)) xs" and "\<not> (is_integer r \<and> in_int4 \<lfloor>r\<rfloor>)"
  shows "filter (\<lambda>u. rat_of_int (user_id u) \<noteq> r) xs = xs"
proof -
  have "rat_of_int (user_id u) \<noteq> r" if "u \<in> set xs" for u
  proof
    assume e: "rat_of_int (user_id u) = r"
    then have "is_integer r" "\<lfloor>r\<rfloor> = user_id u" by (auto simp: is_integer_def)
    moreover have "in_int4 (user_id u)" using assms(1) that by (simp add: list_all_iff)
    ultimately show False using assms(2) by simp
  qed
  then show ?thesis by (simp add: filter_id_conv)
qed

subsection \<open>Sequences of create calls and the ordered query\<close>

lemma sorted_wrt_drop_middle:
  "sorted_wrt R (xs @ t # ts) \<Longrightarrow> sorted_wrt R (xs @ ts)"
  by (auto simp: sorted_wrt_append)

lemma creates_rows:
  "creates is_email cs st = (us, st') \<Longrightarrow> rows st' = rows st @ us"
proof (induction cs arbitrary: st us st')
  case Nil
  then show ?case by simp
next
  case (Cons c cs)
  obtain now inp where c: "c = (now, inp)" by (cases c)
  obtain res st1 where r: "create is_email now inp st = (res, st1)"
    by (cases "create is_email now inp st")
  show ?case
  proof (cases res)
    case (Inl err)
    with Cons.prems c r have "creates is_email cs st1 = (us, st')" by simp
    then have "rows st' = rows st1 @ us" by (rule Cons.IH)
    moreover have "rows st1 = rows st" using create_failure(1) r Inl by blast
    ultimately show ?thesis by simp
  next
    case (Inr u)
    obtain us1 st2 where t: "creates is_email cs st1 = (us1, st2)"
      by (cases "creates is_email cs st1")
    with Cons.prems c r Inr have e: "us = u # us1" "st' = st2" by simp_all
    from t have "rows st2 = rows st1 @ us1" by (rule Cons.IH)
    moreover have "rows st1 = rows st @ [u]" using create_success(4) r Inr by fastforce
    ultimately show ?thesis using e by simp
  qed
qed

lemma creates_sorted_wrt:
  "creates is_email cs st = (us, st') \<Longrightarrow>
     sorted_wrt R (map user_createdAt (rows st) @ map fst cs) \<Longrightarrow>
     sorted_wrt R (map user_createdAt (rows st'))"
proof (induction cs arbitrary: st us st')
  case Nil
  then show ?case by simp
next
  case (Cons c cs)
  obtain now inp where c: "c = (now, inp)" by (cases c)
  obtain res st1 where r: "create is_email now inp st = (res, st1)"
    by (cases "create is_email now inp st")
  from Cons.prems(2) c
  have s: "sorted_wrt R (map user_createdAt (rows st) @ now # map fst cs)" by simp
  show ?case
  proof (cases res)
    case (Inl err)
    with Cons.prems c r have t: "creates is_email cs st1 = (us, st')" by simp
    have "rows st1 = rows st" using create_failure(1) r Inl by blast
    then have "sorted_wrt R (map user_createdAt (rows st1) @ map fst cs)"
      using sorted_wrt_drop_middle [OF s] by simp
    with t show ?thesis by (rule Cons.IH)
  next
    case (Inr u)
    obtain us1 st2 where t: "creates is_email cs st1 = (us1, st2)"
      by (cases "creates is_email cs st1")
    with Cons.prems c r Inr have e: "st' = st2" by simp
    have "rows st1 = rows st @ [u]" using create_success(4) r Inr by fastforce
    moreover have "user_createdAt u = now"
      using create_success(3) r Inr by (metis user.select_convs(4))
    ultimately have "sorted_wrt R (map user_createdAt (rows st1) @ map fst cs)"
      using s by simp
    with t have "sorted_wrt R (map user_createdAt (rows st2))" by (rule Cons.IH)
    then show ?thesis using e by simp
  qed
qed

lemma orderBy_keys_unique:
  assumes "orderBy key tbl out" and "sorted (map key tbl)"
  shows "map key out = map key tbl"
proof -
  have "mset (map key out) = mset (map key tbl)"
    using assms(1) by (simp add: orderBy_def)
  moreover have "sorted (map key out)" using assms(1) by (simp add: orderBy_def)
  ultimately have "sort (map key tbl) = map key out"
    by (simp add: properties_for_sort)
  then show ?thesis using assms(2) by (simp add: sort_key_id_if_sorted)
qed

lemma orderBy_unique:
  assumes "orderBy key tbl out" and "sorted_wrt (<) (map key tbl)"
  shows "out = tbl"
proof -
  have srt: "sorted (map key tbl)"
    using assms(2) by (simp add: strict_sorted_iff)
  have d: "distinct (map key tbl)"
    using assms(2) by (simp add: strict_sorted_iff)
  have k: "map key out = map key tbl"
    using assms(1) srt by (rule orderBy_keys_unique)
  have "set out = set tbl"
    using assms(1) by (auto simp: orderBy_def dest: mset_eq_setD)
  moreover have "inj_on key (set tbl)"
    using d by (simp add: distinct_map)
  ultimately have "inj_on key (set out \<union> set tbl)" by simp
  then show ?thesis using k by (simp add: inj_on_map_eq_map)
qed

lemma orderBy_sort_key: "orderBy key tbl (sort_key key tbl)"
  by (simp add: orderBy_def)

subsection \<open>Sequences of arbitrary calls\<close>

lemma step_rows:
  "u \<in> set (rows (step is_email c st)) \<Longrightarrow> u \<in> set (rows st) \<or> next_id st \<le> user_id u"
proof (cases c)
  case GetAll
  assume "u \<in> set (rows (step is_email c st))"
  with GetAll show ?thesis by simp
next
  case (Create now inp)
  assume a: "u \<in> set (rows (step is_email c st))"
  obtain res st1 where r: "create is_email now inp st = (res, st1)"
    by (cases "create is_email now inp st")
  show ?thesis
  proof (cases res)
    case (Inl err)
    then have "rows st1 = rows st" using create_failure(1) r by blast
    with a Create r show ?thesis by simp
  next
    case (Inr v)
    then have "rows st1 = rows st @ [v]" using create_success(4) r by fastforce
    moreover have "user_id v = next_id st"
      using create_success(3) r Inr by (metis user.select_convs(1))
    ultimately show ?thesis using a Create r by auto
  qed
next
  case (Delete inp)
  assume "u \<in> set (rows (step is_email c st))"
  with Delete show ?thesis
    using delete_rows [of inp st] by auto
qed

lemma step_next_id: "next_id st \<le> next_id (step is_email c st)"
proof (cases c)
  case (Create now inp)
  obtain res st1 where r: "create is_email now inp st = (res, st1)"
    by (cases "create is_email now inp st")
  then have "next_id st \<le> next_id st1"
    by (cases res) (use create_failure(2) create_success(4) in fastforce)+
  with Create r show ?thesis by simp
qed (simp_all add: delete_next_id)

lemma run_rows:
  "u \<in> set (rows (run is_email cs st)) \<Longrightarrow> u \<in> set (rows st) \<or> next_id st \<le> user_id u"
proof (induction cs arbitrary: st)
  case Nil
  then show ?case by simp
next
  case (Cons c cs)
  from Cons.prems have "u \<in> set (rows (run is_email cs (step is_email c st)))" by simp
  then have "u \<in> set (rows (step is_email c st)) \<or> next_id (step is_email c st) \<le> user_id u"
    by (rule Cons.IH)
  then show ?case
    using step_rows [of u is_email c st] step_next_id [of st is_email c] by auto
qed

lemma step_store_ok: "store_ok st \<Longrightarrow> store_ok (step is_email c st)"
proof (cases c)
  case GetAll
  assume "store_ok st"
  with GetAll show ?thesis by simp
next
  case (Create now inp)
  assume ok: "store_ok st"
  obtain res st1 where r: "create is_email now inp st = (res, st1)"
    by (cases "create is_email now inp st")
  have "store_ok st1"
  proof (cases res)
    case (Inl err)
    then have "rows st1 = rows st" "next_id st \<le> next_id st1"
      using create_failure r by blast+
    with ok show ?thesis by (auto simp: store_ok_def list_all_iff)
  next
    case (Inr v)
    note s = create_success [OF r [unfolded Inr]]
    have "user_id v = next_id st" using s(3) by (metis user.select_convs(1))
    with ok s(2) s(4) show ?thesis by (auto simp: store_ok_def list_all_iff)
  qed
  with Create r show ?thesis by simp
next
  case (Delete inp)
  assume "store_ok st"
  with Delete show ?thesis
    using delete_rows [of inp st] delete_next_id [of inp st]
    by (auto simp: store_ok_def list_all_iff distinct_map_filter)
qed

lemma run_store_ok: "store_ok st \<Longrightarrow> store_ok (run is_email cs st)"
  by (induction cs arbitrary: st) (simp_all add: step_store_ok)

lemma store_ok_empty: "store_ok empty_store"
  by (simp add: store_ok_def empty_store_def)

lemma reachable_store_ok: "store_ok (run is_email cs empty_store)"
  by (rule run_store_ok [OF store_ok_empty])

lemma step_int4_ids: "int4_ids st \<Longrightarrow> int4_ids (step is_email c st)"
proof (cases c)
  case GetAll
  assume "int4_ids st"
  with GetAll show ?thesis by simp
next
  case (Create now inp)
  assume ok: "int4_ids st"
  obtain res st1 where r: "create is_email now inp st = (res, st1)"
    by (cases "create is_email now inp st")
  have "int4_ids st1"
  proof (cases res)
    case (Inl err)
    then have "rows st1 = rows st" "next_id st \<le> next_id st1"
      using create_failure r by blast+
    with ok show ?thesis by (auto simp: int4_ids_def)
  next
    case (Inr v)
    note s = create_success [OF r [unfolded Inr]]
    have "user_id v = next_id st" using s(3) by (metis user.select_convs(1))
    with ok s(4) s(5) show ?thesis by (auto simp: int4_ids_def in_int4_def)
  qed
  with Create r show ?thesis by simp
next
  case (Delete inp)
  assume "int4_ids st"
  with Delete show ?thesis
    using delete_rows [of inp st] delete_next_id [of inp st]
    by (auto simp: int4_ids_def list_all_iff)
qed

lemma run_int4_ids: "int4_ids st \<Longrightarrow> int4_ids (run is_email cs st)"
  by (induction cs arbitrary: st) (simp_all add: step_int4_ids)

lemma reachable_int4_ids: "int4_ids (run is_email cs empty_store)"
  by (rule run_int4_ids) (simp add: int4_ids_def empty_store_def)

section \<open>The claims\<close>

subsection \<open>C1: two creates with the same email\<close>

text \<open>
  C1, as amended. For every state of the store and every pair of consecutive \<open>create\<close>
  calls with the same email (compared as strings, so case-sensitively and exactly), the
  row count grows by at most 1 over the pair, never by 2. If the first call succeeds,
  the email was not stored before, the second call fails and adds no row, and the row
  count has grown by exactly 1. That failure is the store's unique violation, the
  \<open>ConstraintViolation\<close> of the specification passed on as an internal server error,
  whenever the name of the second call is a non-empty string without a NUL character and
  the sequence of ids has not run out.
\<close>

theorem create_duplicate_email:
  "(input_email inp2 = input_email inp1 \<longrightarrow>
      length (rows (snd (create is_email t2 inp2 (snd (create is_email t1 inp1 st))))) \<le>
        length (rows st) + 1) \<and>
   (\<forall>u st1. create is_email t1 inp1 st = (Inr u, st1) \<and> input_email inp2 = input_email inp1 \<longrightarrow>
      user_email u \<notin> emails st \<and> rows st1 = rows st @ [u] \<and>
      (\<exists>err. fst (create is_email t2 inp2 st1) = Inl err) \<and>
      rows (snd (create is_email t2 inp2 st1)) = rows st1 \<and>
      length (rows (snd (create is_email t2 inp2 st1))) = length (rows st) + 1 \<and>
      (\<forall>n2. input_name inp2 = JStr n2 \<and> n2 \<noteq> [] \<and> CHR 0x00 \<notin> set n2 \<and>
            next_id st1 \<le> int4_max \<longrightarrow>
         fst (create is_email t2 inp2 st1) = Inl (InternalServerError UniqueViolation)))"
proof -
  have second: "user_email u \<notin> emails st \<and> rows st1 = rows st @ [u] \<and>
      (\<exists>err. fst (create is_email t2 inp2 st1) = Inl err) \<and>
      rows (snd (create is_email t2 inp2 st1)) = rows st1 \<and>
      length (rows (snd (create is_email t2 inp2 st1))) = length (rows st) + 1 \<and>
      (\<forall>n2. input_name inp2 = JStr n2 \<and> n2 \<noteq> [] \<and> CHR 0x00 \<notin> set n2 \<and>
            next_id st1 \<le> int4_max \<longrightarrow>
         fst (create is_email t2 inp2 st1) = Inl (InternalServerError UniqueViolation))"
    if c: "create is_email t1 inp1 st = (Inr u, st1)"
      and same: "input_email inp2 = input_email inp1" for u st1
  proof -
    note s = create_success [OF c]
    note m = create_success_email [OF c]
    have fresh: "user_email u \<notin> emails st" using s(2) by (simp add: emails_def)
    have r1: "rows st1 = rows st @ [u]" using s(4) by simp
    have e2: "input_email inp2 = JStr (user_email u)" using same m(1) by simp
    have stored: "user_email u \<in> set (map user_email (rows st1))" using r1 by simp
    have fails: "\<exists>err. fst (create is_email t2 inp2 st1) = Inl err"
      using e2 stored by (rule create_stored_email(1))
    have keeps: "rows (snd (create is_email t2 inp2 st1)) = rows st1"
      using e2 stored by (rule create_stored_email(2))
    have unique: "fst (create is_email t2 inp2 st1) = Inl (InternalServerError UniqueViolation)"
      if "input_name inp2 = JStr n2" "n2 \<noteq> []" "CHR 0x00 \<notin> set n2"
        "next_id st1 \<le> int4_max" for n2
      using that(1-3) e2 m(2) m(3) stored that(4) by (rule create_stored_email_unique)
    show ?thesis using fresh r1 fails keeps unique by auto
  qed
  have first: "length (rows (snd (create is_email t2 inp2 (snd (create is_email t1 inp1 st))))) \<le>
        length (rows st) + 1" if same: "input_email inp2 = input_email inp1"
  proof -
    obtain res st1 where r: "create is_email t1 inp1 st = (res, st1)"
      by (cases "create is_email t1 inp1 st")
    show ?thesis
    proof (cases res)
      case (Inl err)
      then have "rows st1 = rows st" using create_failure(1) r by blast
      then show ?thesis using create_rows_length [of is_email t2 inp2 st1] r by simp
    next
      case (Inr u)
      then show ?thesis using second [OF r [unfolded Inr] same] r by simp
    qed
  qed
  show ?thesis using first second by blast
qed

text \<open>
  On the empty table, creating Ada and then Ada2 under the same address: the first call
  stores the row, the second fails with the unique violation, one row is stored.
\<close>

theorem create_duplicate_email_witness:
  "input_email ada2_input = input_email ada_input \<and>
   create email_syntax 10 ada_input empty_store = (Inr ada_user, ada_store) \<and>
   input_name ada2_input = JStr ''Ada2'' \<and> next_id ada_store \<le> int4_max \<and>
   fst (create email_syntax 20 ada2_input ada_store) = Inl (InternalServerError UniqueViolation) \<and>
   rows (snd (create email_syntax 20 ada2_input ada_store)) = rows ada_store \<and>
   length (rows (snd (create email_syntax 20 ada2_input ada_store))) =
     length (rows empty_store) + 1"
proof -
  have h1: "input_email ada2_input = input_email ada_input"
    by (simp add: scenario_defs)
  have h2: "create email_syntax 10 ada_input empty_store = (Inr ada_user, ada_store)"
    by (simp add: procedure_defs scenario_defs)
  have h3: "input_name ada2_input = JStr ''Ada2'' \<and> next_id ada_store \<le> int4_max"
    by (simp add: scenario_defs int4_max_def)
  show ?thesis
    using create_duplicate_email [of ada2_input ada_input email_syntax 20 10 empty_store]
      h1 h2 h3
    by auto
qed

text \<open>
  The claim as it stands fails where the address is stored before the pair of calls: on
  the table that holds Ada, both calls fail and the row count does not grow.
\<close>

theorem create_duplicate_email_counterexample:
  "fst (create email_syntax 20 ada2_input ada_store) = Inl (InternalServerError UniqueViolation) \<and>
   fst (create email_syntax 30 ada2_input (snd (create email_syntax 20 ada2_input ada_store))) =
     Inl (InternalServerError UniqueViolation) \<and>
   length (rows (snd (create email_syntax 30 ada2_input
     (snd (create email_syntax 20 ada2_input ada_store))))) = length (rows ada_store) \<and>
   length (rows (snd (create email_syntax 30 ada2_input
     (snd (create email_syntax 20 ada2_input ada_store))))) \<noteq> length (rows ada_store) + 1"
  by (simp add: procedure_defs scenario_defs)

subsection \<open>C2: the name must not be empty\<close>

text \<open>
  C2, as amended. For every input to \<open>create\<close> whose name is a string, the call is
  rejected on the name if and only if the name is the empty string: nothing is trimmed,
  so a name of white space passes. An empty name fails with \<open>ValidationError\<close>, carrying
  the message of the name field, and the store is left as it was.
\<close>

theorem create_name_required:
  assumes "input_name inp = JStr n"
  shows "(rejected (fst (create is_email now inp st)) ''name'' \<longleftrightarrow> n = []) \<and>
    (n = [] \<longrightarrow>
      (\<exists>issues. create is_email now inp st = (Inl (ValidationError issues), st) \<and>
        \<lparr>path = ''name'', message = Some ''Name is required''\<rparr> \<in> set issues))"
proof -
  have "\<exists>issues. create is_email now inp st = (Inl (ValidationError issues), st) \<and>
        \<lparr>path = ''name'', message = Some ''Name is required''\<rparr> \<in> set issues" if "n = []"
    using assms that
    by (auto simp: create_def create_schema_def name_schema_def split: sum.splits)
  then show ?thesis
    using rejected_create_name [OF assms, of is_email now st] by blast
qed

theorem create_name_required_witness:
  "input_name noname_input = JStr [] \<and>
   rejected (fst (create email_syntax 20 noname_input ada_store)) ''name'' \<and>
   create email_syntax 20 noname_input ada_store =
     (Inl (ValidationError [\<lparr>path = ''name'', message = Some ''Name is required''\<rparr>]),
      ada_store) \<and>
   input_name ada_input = JStr ''Ada'' \<and>
   \<not> rejected (fst (create email_syntax 10 ada_input empty_store)) ''name''"
proof -
  have h1: "input_name noname_input = JStr []" by (simp add: noname_input_def)
  have h2: "input_name ada_input = JStr ''Ada''" by (simp add: ada_input_def)
  have c: "create email_syntax 20 noname_input ada_store =
     (Inl (ValidationError [\<lparr>path = ''name'', message = Some ''Name is required''\<rparr>]),
      ada_store)"
    by (simp add: procedure_defs scenario_defs)
  show ?thesis
    using create_name_required [OF h1, of email_syntax 20 ada_store]
      create_name_required [OF h2, of email_syntax 10 empty_store] h1 h2 c
    by simp
qed

text \<open>
  The claim as it stands fails on a name of one space: it is empty after trimming, and
  the call stores it.
\<close>

theorem create_name_required_counterexample:
  "input_name blank_input = JStr '' '' \<and> trim '' '' = [] \<and>
   name_schema (JStr '' '') = Inr '' '' \<and>
   \<not> rejected (fst (create email_syntax 10 blank_input empty_store)) ''name'' \<and>
   create email_syntax 10 blank_input empty_store =
     (Inr blank_user, \<lparr>rows = [blank_user], next_id = 2\<rparr>)"
  by (simp add: procedure_defs scenario_defs rejected_def trim_def is_space_def)

subsection \<open>C3: invalid input is rejected before the store is touched\<close>

text \<open>
  C3. For every input to \<open>create\<close> with an empty name or a malformed email (one the
  email check refuses), the call returns \<open>ValidationError\<close> with a message for each
  such field, and the store it returns is the store it was given: no row is added and
  no statement reaches the store.
\<close>

theorem create_invalid_input:
  assumes "input_name inp = JStr [] \<or> (\<exists>e. input_email inp = JStr e \<and> \<not> is_email e)"
  shows "\<exists>issues. create is_email now inp st = (Inl (ValidationError issues), st) \<and>
    issues \<noteq> [] \<and>
    (input_name inp = JStr [] \<longrightarrow>
       \<lparr>path = ''name'', message = Some ''Name is required''\<rparr> \<in> set issues) \<and>
    (\<forall>e. input_email inp = JStr e \<and> \<not> is_email e \<longrightarrow>
       \<lparr>path = ''email'', message = Some ''Invalid email address''\<rparr> \<in> set issues)"
  using assms
  by (auto simp: create_def create_schema_def name_schema_def email_schema_def
      split: jsval.splits sum.splits if_splits)

theorem create_invalid_input_witness:
  "input_name noname_input = JStr [] \<and>
   fst (create email_syntax 20 noname_input ada_store) =
     Inl (ValidationError [\<lparr>path = ''name'', message = Some ''Name is required''\<rparr>]) \<and>
   snd (create email_syntax 20 noname_input ada_store) = ada_store \<and>
   input_email nodot_input = JStr ''bob@x'' \<and> \<not> email_syntax ''bob@x'' \<and>
   fst (create email_syntax 20 nodot_input ada_store) =
     Inl (ValidationError [\<lparr>path = ''email'', message = Some ''Invalid email address''\<rparr>]) \<and>
   snd (create email_syntax 20 nodot_input ada_store) = ada_store"
proof -
  have h1: "input_name noname_input = JStr []" by (simp add: noname_input_def)
  have h2: "input_email nodot_input = JStr ''bob@x'' \<and> \<not> email_syntax ''bob@x''"
    by (simp add: nodot_input_def email_syntax_def)
  have c1: "create email_syntax 20 noname_input ada_store =
     (Inl (ValidationError [\<lparr>path = ''name'', message = Some ''Name is required''\<rparr>]),
      ada_store)"
    by (simp add: procedure_defs scenario_defs)
  have c2: "create email_syntax 20 nodot_input ada_store =
     (Inl (ValidationError [\<lparr>path = ''email'', message = Some ''Invalid email address''\<rparr>]),
      ada_store)"
    by (simp add: procedure_defs scenario_defs)
  show ?thesis
    using create_invalid_input [of noname_input email_syntax 20 ada_store]
      create_invalid_input [of nodot_input email_syntax 20 ada_store] h1 h2 c1 c2
    by simp
qed

subsection \<open>C4: the list is ordered by creation time\<close>

text \<open>
  C4, as amended. For every store and every sequence of \<open>create\<close> calls on it, the table
  then holds the old rows followed by the users the successful calls returned, in the
  order of the calls. A subsequent list exists, holds every stored row exactly once
  (nothing is filtered, nothing is cut off) and is in non-decreasing \<open>createdAt\<close> order.
  The timestamps are readings of the store's clock, and the list follows them, not the
  insertion: where the stored timestamps followed by those of the calls are strictly
  increasing, the list is the insertion order; where they are only non-decreasing, the
  insertion order is one of the possible lists and every list shows the timestamps in
  insertion order, the order among rows of equal timestamp being the store's choice.
\<close>

theorem getAll_after_creates:
  assumes "creates is_email cs st = (us, st')"
  shows "rows st' = rows st @ us \<and>
    (\<exists>out. getAll st' out) \<and>
    (\<forall>out. getAll st' out \<longrightarrow>
       mset out = mset (rows st') \<and> length out = length (rows st') \<and>
       sorted (map user_createdAt out)) \<and>
    (sorted (map user_createdAt (rows st) @ map fst cs) \<longrightarrow>
       getAll st' (rows st') \<and>
       (\<forall>out. getAll st' out \<longrightarrow> map user_createdAt out = map user_createdAt (rows st'))) \<and>
    (sorted_wrt (<) (map user_createdAt (rows st) @ map fst cs) \<longrightarrow>
       (\<forall>out. getAll st' out \<longrightarrow> out = rows st'))"
proof -
  have a: "rows st' = rows st @ us" using assms by (rule creates_rows)
  have b: "\<exists>out. getAll st' out"
    unfolding getAll_def using orderBy_sort_key by blast
  have c: "mset out = mset (rows st') \<and> length out = length (rows st') \<and>
       sorted (map user_createdAt out)" if "getAll st' out" for out
    using that by (auto simp: getAll_def orderBy_def dest: mset_eq_length)
  have d: "getAll st' (rows st') \<and>
       (\<forall>out. getAll st' out \<longrightarrow> map user_createdAt out = map user_createdAt (rows st'))"
    if "sorted (map user_createdAt (rows st) @ map fst cs)"
  proof -
    have s: "sorted (map user_createdAt (rows st'))"
      using assms that by (rule creates_sorted_wrt)
    then show ?thesis
      using orderBy_keys_unique by (auto simp: getAll_def orderBy_def)
  qed
  have e: "\<forall>out. getAll st' out \<longrightarrow> out = rows st'"
    if "sorted_wrt (<) (map user_createdAt (rows st) @ map fst cs)"
  proof -
    have "sorted_wrt (<) (map user_createdAt (rows st'))"
      using assms that by (rule creates_sorted_wrt)
    then show ?thesis
      using orderBy_unique by (auto simp: getAll_def)
  qed
  show ?thesis using a b c d e by blast
qed

text \<open>
  Three calls on the empty table, the second refused for its duplicate address: the list
  is Ada then Bob, and not Bob then Ada.
\<close>

theorem getAll_after_creates_witness:
  "creates email_syntax [(10, ada_input), (20, ada2_input), (30, bob_input)] empty_store =
     ([ada_user, bob_user], \<lparr>rows = [ada_user, bob_user], next_id = 4\<rparr>) \<and>
   sorted_wrt (<) (map user_createdAt (rows empty_store) @
     map fst [(10, ada_input), (20, ada2_input), (30, bob_input)]) \<and>
   getAll \<lparr>rows = [ada_user, bob_user], next_id = 4\<rparr> [ada_user, bob_user] \<and>
   \<not> getAll \<lparr>rows = [ada_user, bob_user], next_id = 4\<rparr> [bob_user, ada_user]"
proof -
  have h: "creates email_syntax [(10, ada_input), (20, ada2_input), (30, bob_input)]
      empty_store = ([ada_user, bob_user], \<lparr>rows = [ada_user, bob_user], next_id = 4\<rparr>)"
    by (simp add: procedure_defs scenario_defs)
  have s: "sorted_wrt (<) (map user_createdAt (rows empty_store) @
     map fst [(10, ada_input), (20, ada2_input), (30, bob_input)])"
    by (simp add: empty_store_def)
  have n: "[bob_user, ada_user] \<noteq> [ada_user, bob_user]"
    by (simp add: scenario_defs)
  show ?thesis
    using getAll_after_creates [OF h] h s n by auto
qed

text \<open>
  The claim as it stands fails where a later call reads an earlier time: Ada is created
  at time 10 and Bob after her at time 5. The list is Bob then Ada; the insertion order,
  Ada then Bob, is not a list.
\<close>

theorem getAll_after_creates_counterexample:
  "creates email_syntax [(10, ada_input), (5, bob_input)] empty_store =
     ([ada_user, early_user], \<lparr>rows = [ada_user, early_user], next_id = 3\<rparr>) \<and>
   getAll \<lparr>rows = [ada_user, early_user], next_id = 3\<rparr> [early_user, ada_user] \<and>
   \<not> getAll \<lparr>rows = [ada_user, early_user], next_id = 3\<rparr> [ada_user, early_user]"
  by (simp add: procedure_defs scenario_defs getAll_def orderBy_def)

subsection \<open>C5: delete is idempotent\<close>

text \<open>
  C5, as amended. For every id in the range of the 32-bit id column and every store:
  \<open>delete\<close> with an id that no row has returns \<open>{success: true}\<close> and leaves the store
  as it was; and for every such id, stored or not, \<open>delete\<close> returns \<open>{success: true}\<close>,
  no row has the id afterwards, and a second \<open>delete\<close> with the same id returns
  \<open>{success: true}\<close> again and changes nothing.
\<close>

theorem delete_idempotent:
  "in_int4 i \<longrightarrow>
     (i \<notin> set (map user_id (rows st)) \<longrightarrow>
        delete \<lparr>input_id = JNum (rat_of_int i)\<rparr> st = (Inr \<lparr>success = True\<rparr>, st)) \<and>
     fst (delete \<lparr>input_id = JNum (rat_of_int i)\<rparr> st) = Inr \<lparr>success = True\<rparr> \<and>
     i \<notin> set (map user_id (rows (snd (delete \<lparr>input_id = JNum (rat_of_int i)\<rparr> st)))) \<and>
     delete \<lparr>input_id = JNum (rat_of_int i)\<rparr>
         (snd (delete \<lparr>input_id = JNum (rat_of_int i)\<rparr> st)) =
       (Inr \<lparr>success = True\<rparr>, snd (delete \<lparr>input_id = JNum (rat_of_int i)\<rparr> st))"
  by (auto simp: delete_int4 filter_absent)

text \<open>
  On the table that holds Ada under id 1: deleting id 999 changes nothing, deleting id 1
  empties the table, and deleting id 1 again leaves it empty.
\<close>

theorem delete_idempotent_witness:
  "in_int4 999 \<and> 999 \<notin> set (map user_id (rows ada_store)) \<and>
   delete \<lparr>input_id = JNum 999\<rparr> ada_store = (Inr \<lparr>success = True\<rparr>, ada_store) \<and>
   in_int4 1 \<and> 1 \<in> set (map user_id (rows ada_store)) \<and>
   delete \<lparr>input_id = JNum 1\<rparr> ada_store =
     (Inr \<lparr>success = True\<rparr>, \<lparr>rows = [], next_id = 2\<rparr>) \<and>
   delete \<lparr>input_id = JNum 1\<rparr> (snd (delete \<lparr>input_id = JNum 1\<rparr> ada_store)) =
     (Inr \<lparr>success = True\<rparr>, \<lparr>rows = [], next_id = 2\<rparr>)"
proof -
  have r: "in_int4 999 \<and> in_int4 1" by (simp add: in_int4_def int4_max_def)
  have h1: "999 \<notin> set (map user_id (rows ada_store))"
    by (simp add: scenario_defs)
  have h2: "1 \<in> set (map user_id (rows ada_store))"
    by (simp add: scenario_defs)
  have d: "delete \<lparr>input_id = JNum 1\<rparr> ada_store =
     (Inr \<lparr>success = True\<rparr>, \<lparr>rows = [], next_id = 2\<rparr>)"
    using delete_int4 [of 1 ada_store] r by (simp add: scenario_defs)
  show ?thesis
    using delete_idempotent [of 999 ada_store] delete_idempotent [of 1 ada_store] r h1 h2 d
    by simp
qed

text \<open>
  The claim as it stands fails on an id beyond the 32-bit range: no row has the id
  2147483648, the input boundary lets the number through, and the store refuses it, so
  the call fails where the claim promises \<open>{success: true}\<close>.
\<close>

theorem delete_idempotent_counterexample:
  "2147483648 \<notin> set (map user_id (rows ada_store)) \<and>
   delete \<lparr>input_id = JNum 2147483648\<rparr> ada_store =
     (Inl (InternalServerError DataException), ada_store) \<and>
   fst (delete \<lparr>input_id = JNum 2147483648\<rparr> ada_store) \<noteq> Inr \<lparr>success = True\<rparr>"
proof -
  have "\<not> in_int4 \<lfloor>2147483648 :: rat\<rfloor>" by (simp add: in_int4_def int4_max_def)
  then show ?thesis
    by (simp add: delete_def delete_schema_def deleteUser_def scenario_defs)
qed

subsection \<open>C6: the input of delete\<close>

text \<open>
  C6, as amended. The input of \<open>delete\<close> is \<open>{id: number}\<close>: an input passes the input
  boundary if and only if its id is a number, whether an integer or not, and an input
  whose id is not a number is refused there with \<open>ValidationError\<close>, the store left as it
  was. Where the id that passed is an integer in the range of the 32-bit id column, the
  response is \<open>{success: true}\<close>; where it is any other number, the store refuses it,
  the call fails with an internal server error and nothing is deleted.
\<close>

theorem delete_input_number:
  "(delete_schema inp = Inr r \<longleftrightarrow> input_id inp = JNum r) \<and>
   ((\<forall>q. input_id inp \<noteq> JNum q) \<longrightarrow>
      delete inp st = (Inl (ValidationError [\<lparr>path = ''id'', message = None\<rparr>]), st)) \<and>
   (input_id inp = JNum r \<and> is_integer r \<and> in_int4 \<lfloor>r\<rfloor> \<longrightarrow>
      fst (delete inp st) = Inr \<lparr>success = True\<rparr>) \<and>
   (input_id inp = JNum r \<and> \<not> (is_integer r \<and> in_int4 \<lfloor>r\<rfloor>) \<longrightarrow>
      delete inp st = (Inl (InternalServerError DataException), st))"
  by (auto simp: delete_def delete_schema_def deleteUser_def split: jsval.splits)

theorem delete_input_number_witness:
  "delete_schema \<lparr>input_id = JNum 1\<rparr> = Inr 1 \<and> is_integer 1 \<and> in_int4 \<lfloor>1 :: rat\<rfloor> \<and>
   fst (delete \<lparr>input_id = JNum 1\<rparr> ada_store) = Inr \<lparr>success = True\<rparr> \<and>
   delete \<lparr>input_id = JStr ''1''\<rparr> ada_store =
     (Inl (ValidationError [\<lparr>path = ''id'', message = None\<rparr>]), ada_store) \<and>
   is_integer 2147483648 \<and> \<not> in_int4 \<lfloor>2147483648 :: rat\<rfloor> \<and>
   delete \<lparr>input_id = JNum 2147483648\<rparr> ada_store =
     (Inl (InternalServerError DataException), ada_store)"
proof -
  have h1: "is_integer 1 \<and> in_int4 \<lfloor>1 :: rat\<rfloor>"
    by (simp add: is_integer_def in_int4_def int4_max_def)
  have h2: "is_integer 2147483648 \<and> \<not> in_int4 \<lfloor>2147483648 :: rat\<rfloor>"
    by (simp add: is_integer_def in_int4_def int4_max_def)
  show ?thesis
    using delete_input_number [of "\<lparr>input_id = JNum 1\<rparr>" 1 ada_store]
      delete_input_number [of "\<lparr>input_id = JStr ''1''\<rparr>" 1 ada_store]
      delete_input_number [of "\<lparr>input_id = JNum 2147483648\<rparr>" 2147483648 ada_store] h1 h2
    by simp
qed

text \<open>
  The claim as it stands fails on the id 3/2: it is not an integer, the input boundary
  lets it through, and the response is not \<open>{success: true}\<close> but the store's refusal.
\<close>

theorem delete_input_number_counterexample:
  "\<not> is_integer (3 / 2) \<and>
   delete_schema \<lparr>input_id = JNum (3 / 2)\<rparr> = Inr (3 / 2) \<and>
   \<not> rejected (fst (delete \<lparr>input_id = JNum (3 / 2)\<rparr> ada_store)) ''id'' \<and>
   delete \<lparr>input_id = JNum (3 / 2)\<rparr> ada_store =
     (Inl (InternalServerError DataException), ada_store)"
proof -
  have "\<lfloor>3 / 2 :: rat\<rfloor> = 1" by linarith
  then have "\<not> is_integer (3 / 2)" by (simp add: is_integer_def)
  then show ?thesis
    by (simp add: delete_def delete_schema_def deleteUser_def rejected_def)
qed

subsection \<open>C7: the email must have the syntax of an email address\<close>

text \<open>
  C7, with the email check read as the specification describes it (a local part, an
  \<open>@\<close> and a domain with at least one dot). For every input to \<open>create\<close> whose email
  is a string, the call is rejected on the email if and only if the string does not have
  that shape; an email without it fails with \<open>ValidationError\<close>, carrying the message of
  the email field, and the store is left as it was.
\<close>

theorem create_email_syntax:
  assumes "input_email inp = JStr e"
  shows "(rejected (fst (create email_syntax now inp st)) ''email'' \<longleftrightarrow> \<not> email_syntax e) \<and>
    (\<not> email_syntax e \<longrightarrow>
      (\<exists>issues. create email_syntax now inp st = (Inl (ValidationError issues), st) \<and>
        \<lparr>path = ''email'', message = Some ''Invalid email address''\<rparr> \<in> set issues))"
proof -
  have "\<exists>issues. create email_syntax now inp st = (Inl (ValidationError issues), st) \<and>
        \<lparr>path = ''email'', message = Some ''Invalid email address''\<rparr> \<in> set issues"
    if "\<not> email_syntax e"
    using assms that
    by (auto simp: create_def create_schema_def email_schema_def split: sum.splits)
  then show ?thesis
    using rejected_create_email [OF assms, of email_syntax now st] by blast
qed

theorem create_email_syntax_witness:
  "input_email ada_input = JStr ''ada@x.com'' \<and> email_syntax ''ada@x.com'' \<and>
   \<not> rejected (fst (create email_syntax 10 ada_input empty_store)) ''email'' \<and>
   input_email nodot_input = JStr ''bob@x'' \<and> \<not> email_syntax ''bob@x'' \<and>
   rejected (fst (create email_syntax 20 nodot_input ada_store)) ''email'' \<and>
   snd (create email_syntax 20 nodot_input ada_store) = ada_store"
proof -
  have h1: "input_email ada_input = JStr ''ada@x.com''" by (simp add: ada_input_def)
  have h2: "input_email nodot_input = JStr ''bob@x''" by (simp add: nodot_input_def)
  have e1: "email_syntax ''ada@x.com''" by (simp add: email_syntax_def)
  have e2: "\<not> email_syntax ''bob@x''" by (simp add: email_syntax_def)
  show ?thesis
    using create_email_syntax [OF h1, of 10 empty_store]
      create_email_syntax [OF h2, of 20 ada_store] h1 h2 e1 e2
    by auto
qed

subsection \<open>C8: create returns the stored user\<close>

text \<open>
  C8. For every input and every store, whenever \<open>create\<close> succeeds, the input was valid
  and the user the call returns has the submitted name and email, the id drawn from the
  sequence and the timestamp of the clock; it is the row appended to the table, and
  every subsequent list holds that very record.
\<close>

theorem create_returns_user:
  assumes "create is_email now inp st = (Inr u, st')"
  shows "create_schema is_email inp = Inr (user_name u, user_email u) \<and>
    input_name inp = JStr (user_name u) \<and> input_email inp = JStr (user_email u) \<and>
    user_id u = next_id st \<and> user_createdAt u = now \<and>
    rows st' = rows st @ [u] \<and> next_id st' = next_id st + 1 \<and>
    (\<forall>out. getAll st' out \<longrightarrow> u \<in> set out)"
proof -
  note s = create_success [OF assms]
  have f: "input_name inp = JStr (user_name u) \<and> input_email inp = JStr (user_email u)"
    using s(1) by (simp add: create_schema_Inr_iff)
  have g: "user_id u = next_id st \<and> user_createdAt u = now"
    using s(3) by (metis user.select_convs(1,4))
  have h: "rows st' = rows st @ [u] \<and> next_id st' = next_id st + 1"
    using s(4) by simp
  have "u \<in> set out" if "getAll st' out" for out
  proof -
    from that have "mset out = mset (rows st')" by (simp add: getAll_def orderBy_def)
    then have "set out = set (rows st')" by (rule mset_eq_setD)
    then show ?thesis using h by simp
  qed
  then show ?thesis using s(1) f g h by blast
qed

text \<open>The first scenario of the specification: Ada is created on the empty table.\<close>

theorem create_returns_user_witness:
  "create email_syntax 10 ada_input empty_store = (Inr ada_user, ada_store) \<and>
   create_schema email_syntax ada_input = Inr (''Ada'', ''ada@x.com'') \<and>
   input_name ada_input = JStr (user_name ada_user) \<and>
   input_email ada_input = JStr (user_email ada_user) \<and>
   user_id ada_user = next_id empty_store \<and> user_createdAt ada_user = 10 \<and>
   rows ada_store = rows empty_store @ [ada_user] \<and>
   getAll ada_store [ada_user]"
proof -
  have c: "create email_syntax 10 ada_input empty_store = (Inr ada_user, ada_store)"
    by (simp add: procedure_defs scenario_defs)
  have n: "user_name ada_user = ''Ada'' \<and> user_email ada_user = ''ada@x.com''"
    by (simp add: ada_user_def)
  have g: "getAll ada_store [ada_user]"
    by (simp add: getAll_def orderBy_def ada_store_def)
  show ?thesis
    using create_returns_user [OF c] c n g by simp
qed

subsection \<open>C9: stored users are never changed\<close>

text \<open>
  C9. For every well-formed store, every user stored in it and every sequence of list,
  create and delete calls: a row of the resulting table that has the user's id is the
  user itself, with the same id, name, email and createdAt. The resulting store is
  well-formed again, so the same holds for the users created along the way.
\<close>

theorem users_never_mutated:
  assumes "store_ok st" and "u \<in> set (rows st)"
    and "u' \<in> set (rows (run is_email cs st))" and "user_id u' = user_id u"
  shows "u' = u \<and> store_ok (run is_email cs st)"
proof -
  have "user_id u < next_id st"
    using assms(1,2) by (simp add: store_ok_def list_all_iff)
  with assms(4) have "\<not> next_id st \<le> user_id u'" by simp
  with run_rows [OF assms(3)] have "u' \<in> set (rows st)" by blast
  moreover have "inj_on user_id (set (rows st))"
    using assms(1) by (simp add: store_ok_def distinct_map)
  ultimately have "u' = u" using assms(2,4) by (auto dest: inj_onD)
  then show ?thesis using assms(1) by (simp add: run_store_ok)
qed

text \<open>
  On the table that holds Ada: a refused create, a list, a delete of an absent id and
  the creation of Bob leave Ada's row as it was.
\<close>

theorem users_never_mutated_witness:
  "store_ok ada_store \<and> ada_user \<in> set (rows ada_store) \<and>
   run email_syntax
     [Create 20 ada2_input, GetAll, Delete \<lparr>input_id = JNum 999\<rparr>, Create 30 bob_input]
     ada_store = \<lparr>rows = [ada_user, bob_user], next_id = 4\<rparr> \<and>
   ada_user \<in> set (rows (run email_syntax
     [Create 20 ada2_input, GetAll, Delete \<lparr>input_id = JNum 999\<rparr>, Create 30 bob_input]
     ada_store)) \<and>
   store_ok (run email_syntax
     [Create 20 ada2_input, GetAll, Delete \<lparr>input_id = JNum 999\<rparr>, Create 30 bob_input]
     ada_store)"
proof -
  have h1: "store_ok ada_store" by (simp add: store_ok_def scenario_defs)
  have h2: "ada_user \<in> set (rows ada_store)" by (simp add: ada_store_def)
  have r: "run email_syntax
     [Create 20 ada2_input, GetAll, Delete \<lparr>input_id = JNum 999\<rparr>, Create 30 bob_input]
     ada_store = \<lparr>rows = [ada_user, bob_user], next_id = 4\<rparr>"
    by (simp add: procedure_defs scenario_defs)
  have h3: "ada_user \<in> set (rows (run email_syntax
     [Create 20 ada2_input, GetAll, Delete \<lparr>input_id = JNum 999\<rparr>, Create 30 bob_input]
     ada_store))"
    unfolding r by simp
  show ?thesis
    using users_never_mutated [OF h1 h2 h3] h1 h2 h3 r by simp
qed

subsection \<open>C10: delete touches no other row\<close>

text \<open>
  C10. For every store whose ids fit the 32-bit id column and every input, \<open>delete\<close>
  leaves a table from which exactly the rows whose id equals the submitted id are gone:
  every other row stands as it was, in the same order, and the sequence of ids is not
  touched. Where the store refuses the id, or the input is refused, no row has that id
  and none goes. For an integer id in the 32-bit range the call returns
  \<open>{success: true}\<close> with that table, on every store.
\<close>

theorem delete_frame:
  "(int4_ids st \<longrightarrow>
      rows (snd (delete inp st)) =
        filter (\<lambda>u. JNum (rat_of_int (user_id u)) \<noteq> input_id inp) (rows st) \<and>
      set (rows (snd (delete inp st))) =
        {u \<in> set (rows st). JNum (rat_of_int (user_id u)) \<noteq> input_id inp}) \<and>
   next_id (snd (delete inp st)) = next_id st \<and>
   (in_int4 i \<longrightarrow>
      delete \<lparr>input_id = JNum (rat_of_int i)\<rparr> st =
        (Inr \<lparr>success = True\<rparr>, st\<lparr>rows := filter (\<lambda>u. user_id u \<noteq> i) (rows st)\<rparr>))"
proof -
  have a: "rows (snd (delete inp st)) =
        filter (\<lambda>u. JNum (rat_of_int (user_id u)) \<noteq> input_id inp) (rows st)"
    if ok: "int4_ids st"
  proof (cases "input_id inp")
    case (JNum r)
    show ?thesis
    proof (cases "is_integer r \<and> in_int4 \<lfloor>r\<rfloor>")
      case True
      then have "rows (snd (delete inp st)) = filter (\<lambda>u. user_id u \<noteq> \<lfloor>r\<rfloor>) (rows st)"
        using JNum by (simp add: delete_def delete_schema_def deleteUser_def)
      then show ?thesis using True JNum by (simp add: filter_number)
    next
      case False
      then have "rows (snd (delete inp st)) = rows st"
        using JNum by (auto simp: delete_def delete_schema_def deleteUser_def)
      moreover have "list_all (\<lambda>u. in_int4 (user_id u)) (rows st)"
        using ok by (simp add: int4_ids_def)
      ultimately show ?thesis using False JNum by (simp add: filter_no_int4)
    qed
  qed (simp_all add: delete_def delete_schema_def)
  then have b: "set (rows (snd (delete inp st))) =
        {u \<in> set (rows st). JNum (rat_of_int (user_id u)) \<noteq> input_id inp}"
    if "int4_ids st"
    using that by simp
  show ?thesis using a b delete_next_id [of inp st] delete_int4 [of i st] by blast
qed

text \<open>
  On the table that holds Ada under id 1 and Bob under id 3: deleting id 1 leaves Bob's
  row and the sequence as they were; the id 2147483648 is refused and both rows stay.
\<close>

theorem delete_frame_witness:
  "int4_ids ada_bob_store \<and> in_int4 1 \<and>
   delete \<lparr>input_id = JNum 1\<rparr> ada_bob_store =
     (Inr \<lparr>success = True\<rparr>, \<lparr>rows = [bob_user], next_id = 4\<rparr>) \<and>
   rows (snd (delete \<lparr>input_id = JNum 1\<rparr> ada_bob_store)) = [bob_user] \<and>
   next_id (snd (delete \<lparr>input_id = JNum 1\<rparr> ada_bob_store)) = next_id ada_bob_store \<and>
   rows (snd (delete \<lparr>input_id = JNum 2147483648\<rparr> ada_bob_store)) = [ada_user, bob_user]"
proof -
  have h1: "int4_ids ada_bob_store"
    by (simp add: int4_ids_def in_int4_def int4_max_def scenario_defs)
  have h2: "in_int4 1" by (simp add: in_int4_def int4_max_def)
  have f: "filter (\<lambda>u. user_id u \<noteq> 1) (rows ada_bob_store) = [bob_user]"
    by (simp add: scenario_defs)
  have g: "filter (\<lambda>u. JNum (rat_of_int (user_id u)) \<noteq> JNum 2147483648) (rows ada_bob_store) =
      [ada_user, bob_user]"
    by (simp add: scenario_defs)
  show ?thesis
    using delete_frame [of ada_bob_store "\<lparr>input_id = JNum 1\<rparr>" 1]
      delete_frame [of ada_bob_store "\<lparr>input_id = JNum 2147483648\<rparr>" 1] h1 h2 f g
    by (simp add: ada_bob_store_def)
qed

end
